theory Spec2Isabelle
  imports Complex_Main "HOL-Library.Log_Nat"
begin

section \<open>Data model\<close>

text \<open>
  The subtitle code works on JavaScript strings and numbers. A string is modelled as a
  \<^typ>\<open>string\<close>, one \<^typ>\<open>char\<close> per code unit (code units below 256), so that
  \<open>length\<close> is the JavaScript \<open>.length\<close>. A number is the rational it denotes. The
  chunking code only copies and compares times and subtracts two of them once, and
  there the arithmetic is exact. \<open>secondsToSRT\<close> multiplies, and there the product
  is rounded to a double as IEEE 754 rounds it.

  A transcript entry is \<open>{ word, start, end }\<close>; a subtitle chunk is
  \<open>{ text, start, end }\<close>. The field names carry a prefix where the source's name is
  a keyword here or would be shared by both records.
\<close>

record Word =
  word :: string
  wstart :: rat
  wend :: rat

record Chunk =
  ctext :: string
  cstart :: rat
  cend :: rat

text \<open>The value returned by \<open>chunkSentence\<close> and by \<open>chunkText\<close>.\<close>

record result =
  chunks :: "Chunk list"
  remainingWords :: "Word list"

text \<open>The four \<open>let\<close> variables of \<open>chunkSentence\<close> that the loop updates.\<close>

record cursor =
  chunkStartIndex :: nat
  chunkEndIndex :: nat
  chunkStartTime :: rat
  chunkEndTime :: rat

text \<open>
  Reading a property of \<open>undefined\<close> throws a \<open>TypeError\<close>; this is the only way
  the chunking code fails.
\<close>

datatype error = TypeError

section \<open>String primitives\<close>

text \<open>
  \<open>s.indexOf(w, pos)\<close>: the search starts at \<open>min pos (length s)\<close> and returns the
  least position from there at which \<open>w\<close> occurs in \<open>s\<close>; \<open>None\<close> stands for the
  result \<open>-1\<close>. The empty string occurs at every position up to \<open>length s\<close>.
\<close>

definition indexOf :: "string \<Rightarrow> string \<Rightarrow> nat \<Rightarrow> nat option" where
  "indexOf s w pos =
     List.find (\<lambda>k. take (length w) (drop k s) = w) [min pos (length s) ..< Suc (length s)]"

text \<open>\<open>s.slice(a, b)\<close> and \<open>s.slice(a)\<close> for non-negative arguments.\<close>

definition slice :: "string \<Rightarrow> nat \<Rightarrow> nat \<Rightarrow> string" where
  "slice s a b = take (b - a) (drop a s)"

definition sliceFrom :: "string \<Rightarrow> nat \<Rightarrow> string" where
  "sliceFrom s a = drop a s"

text \<open>
  The class \<open>\s\<close> of a regular expression, which is also what \<open>trim\<close> strips, on code
  units below 256: tab, line feed, vertical tab, form feed, carriage return, space and
  the no-break space.
\<close>

definition isSpace :: "char \<Rightarrow> bool" where
  "isSpace c = (of_char c \<in> {9, 10, 11, 12, 13, 32, 160 :: nat})"

definition isDelim :: "char \<Rightarrow> bool" where
  "isDelim c = (c = CHR ''.'' \<or> c = CHR ''!'' \<or> c = CHR ''?'')"

definition trim :: "string \<Rightarrow> string" where
  "trim s = rev (dropWhile isSpace (rev (dropWhile isSpace s)))"

section \<open>secondsToSRT\<close>

text \<open>
  Rounding to the nearest double, ties to even, for magnitudes below \<open>2 ^ 1024\<close>. A
  double has 53 significant bits, so the doubles around \<open>x\<close> with
  \<open>2 ^ e \<le> \<bar>x\<bar> < 2 ^ (e + 1)\<close> are the multiples of \<open>2 ^ (e - 52)\<close>, and the multiples
  of \<open>2 ^ - 1074\<close> in the subnormal range.
\<close>

definition pow2 :: "int \<Rightarrow> rat" where
  "pow2 e = (if 0 \<le> e then 2 ^ nat e else 1 / 2 ^ nat (- e))"

definition roundHalfEven :: "rat \<Rightarrow> int" where
  "roundHalfEven x =
     (let f = \<lfloor>x\<rfloor>; d = x - of_int f
      in if d < 1 / 2 then f else if 1 / 2 < d then f + 1 else if even f then f else f + 1)"

text \<open>The \<open>e\<close> with \<open>2 ^ e \<le> x < 2 ^ (e + 1)\<close>, for positive \<open>x\<close>.\<close>

definition exponent :: "rat \<Rightarrow> int" where
  "exponent x =
     (let d = bitlen (fst (quotient_of x)) - bitlen (snd (quotient_of x))
      in if pow2 d \<le> x then d else d - 1)"

definition roundDouble :: "rat \<Rightarrow> rat" where
  "roundDouble x =
     (if x = 0 then 0
      else let q = pow2 (max (exponent \<bar>x\<bar> - 52) (- 1074))
           in of_int (roundHalfEven (x / q)) * q)"

text \<open>
  \<open>seconds % 1\<close> keeps the sign of \<open>seconds\<close> and is exact on doubles, and
  \<open>Math.round\<close> rounds a half upwards.
\<close>

definition jsMod1 :: "rat \<Rightarrow> rat" where
  "jsMod1 x = (if 0 \<le> x then x - of_int \<lfloor>x\<rfloor> else x - of_int \<lceil>x\<rceil>)"

definition jsRound :: "rat \<Rightarrow> int" where
  "jsRound x = \<lfloor>x + 1 / 2\<rfloor>"

definition digit :: "int \<Rightarrow> char" where
  "digit n = ''0123456789'' ! nat (n mod 10)"

definition pad2 :: "int \<Rightarrow> string" where
  "pad2 n = [digit (n div 10), digit n]"

definition pad3 :: "int \<Rightarrow> string" where
  "pad3 n = [digit (n div 100), digit (n div 10), digit n]"

text \<open>
  The offset of Europe/Berlin from UTC in milliseconds, on 1 January 1970 and until
  summer time came in April 1980.
\<close>

definition berlinTZA :: int where
  "berlinTZA = 3600000"

text \<open>
  \<open>new Date(1970, 0, 1, 0, 0, s, ms)\<close> reads its arguments as local time of the
  process: the time value is \<open>s * 1000 + ms\<close> milliseconds after local midnight, that
  is \<open>s * 1000 + ms - localTZA\<close> after midnight UTC, where \<open>localTZA\<close> is the offset
  of the process's time zone, a parameter of the model.
\<close>

definition newDate :: "int \<Rightarrow> int \<Rightarrow> int \<Rightarrow> int" where
  "newDate localTZA s ms = s * 1000 + ms - localTZA"

text \<open>
  \<open>formatterTime.format\<close> shows the hour, minute, second and millisecond of the time
  value in Europe/Berlin, two digits each and three for the milliseconds, which the
  locale \<open>de\<close> joins as \<open>HH:MM:SS,mmm\<close>. The model holds for time values of the
  1970s, while Berlin stays at one offset.
\<close>

definition formatterTime :: "int \<Rightarrow> string" where
  "formatterTime tv =
     (let t = tv + berlinTZA
      in pad2 (t div 3600000 mod 24) @ '':'' @ pad2 (t div 60000 mod 60) @ '':''
         @ pad2 (t div 1000 mod 60) @ '','' @ pad3 (t mod 1000))"

definition secondsToSRT :: "int \<Rightarrow> rat \<Rightarrow> string" where
  "secondsToSRT localTZA seconds =
     formatterTime
       (newDate localTZA \<lfloor>seconds\<rfloor> (jsRound (roundDouble (jsMod1 seconds * 1000))))"

section \<open>chunkSentence\<close>

text \<open>
  The \<open>for\<close> loop of \<open>chunkSentence\<close> over the words not yet visited. It returns the
  chunks pushed so far, the cursor, and \<open>words.slice(i)\<close> for the \<open>i\<close> at which the
  loop stopped: the empty list when every word was visited, the unmatched word and all
  words after it when the loop left by \<open>break\<close>.
\<close>

fun chunkLoop :: "string \<Rightarrow> Chunk list \<Rightarrow> cursor \<Rightarrow> Word list \<Rightarrow> Chunk list \<times> cursor \<times> Word list" where
  "chunkLoop sentence cs cur [] = (cs, cur, [])"
| "chunkLoop sentence cs cur (w # ws) =
     (case indexOf sentence (word w) (chunkEndIndex cur) of
        None \<Rightarrow> (cs, cur, w # ws)
      | Some index \<Rightarrow>
          if int index + int (length (word w)) - int (chunkStartIndex cur) > 30 then
            chunkLoop sentence
              (cs @ [\<lparr>ctext = slice sentence (chunkStartIndex cur) (chunkEndIndex cur),
                      cstart = chunkStartTime cur, cend = chunkEndTime cur\<rparr>])
              \<lparr>chunkStartIndex = index, chunkEndIndex = index,
               chunkStartTime = wstart w, chunkEndTime = wend w\<rparr> ws
          else
            chunkLoop sentence cs
              (cur\<lparr>chunkEndIndex := index + length (word w), chunkEndTime := wend w\<rparr>) ws)"

text \<open>
  The statement after the loop. A final span shorter than half a second is appended to
  the text of \<open>chunks[chunks.length - 1]\<close>, which is \<open>undefined\<close> when no chunk was
  pushed; otherwise the final span is pushed as a chunk of its own.
\<close>

definition finishChunks :: "string \<Rightarrow> Chunk list \<Rightarrow> cursor \<Rightarrow> error + Chunk list" where
  "finishChunks sentence cs cur =
     (if chunkEndTime cur - chunkStartTime cur < 1 / 2 then
        (if cs = [] then Inl TypeError
         else Inr (cs[length cs - 1 :=
                (cs ! (length cs - 1))\<lparr>ctext := ctext (cs ! (length cs - 1)) @ '' ''
                    @ sliceFrom sentence (chunkStartIndex cur)\<rparr>]))
      else Inr (cs @ [\<lparr>ctext = sliceFrom sentence (chunkStartIndex cur),
                       cstart = chunkStartTime cur, cend = chunkEndTime cur\<rparr>]))"

text \<open>The cursor before the loop; \<open>words[0].start\<close> is the start of \<open>w0\<close>.\<close>

definition initCursor :: "Word \<Rightarrow> cursor" where
  "initCursor w0 = \<lparr>chunkStartIndex = 0, chunkEndIndex = 0,
                    chunkStartTime = wstart w0, chunkEndTime = wstart w0\<rparr>"

definition chunkSentence :: "string \<Rightarrow> Word list \<Rightarrow> error + result" where
  "chunkSentence sentence words =
     (case words of
        [] \<Rightarrow> Inl TypeError
      | w0 # _ \<Rightarrow>
          (case chunkLoop sentence [] (initCursor w0) words of
             (cs, cur, rest) \<Rightarrow>
               (case finishChunks sentence cs cur of
                  Inl e \<Rightarrow> Inl e
                | Inr cs' \<Rightarrow> Inr \<lparr>chunks = cs', remainingWords = rest\<rparr>)))"

section \<open>chunkText\<close>

text \<open>
  One attempt of \<open>split\<close> to match \<open>\s*[.!?]\s*\<close> at the head of the string: it
  returns what follows the match. White space and the three delimiters are disjoint, so
  the greedy first \<open>\s*\<close> never has to give a character back.
\<close>

definition matchSep :: "string \<Rightarrow> string option" where
  "matchSep s =
     (case dropWhile isSpace s of
        [] \<Rightarrow> None
      | c # rest \<Rightarrow> if isDelim c then Some (dropWhile isSpace rest) else None)"

text \<open>
  \<open>text.split(re)\<close>: the separator is tried at each position in turn; where it matches,
  the piece collected so far is emitted and the scan goes on behind the match; the
  piece behind the last match is emitted at the end, also when it is empty.
\<close>

function splitLoop :: "string \<Rightarrow> string \<Rightarrow> string list" where
  "splitLoop piece [] = [piece]"
| "splitLoop piece (c # s) =
     (case matchSep (c # s) of
        Some rest \<Rightarrow> piece # splitLoop [] rest
      | None \<Rightarrow> splitLoop (piece @ [c]) s)"
  by pat_completeness auto
termination
proof (relation "measure (\<lambda>(piece, s). length s)")
  show "wf (measure (\<lambda>(piece, s). length s))"
    by simp
next
  fix piece :: string and c s rest
  assume "matchSep (c # s) = Some rest"
  then obtain d r where d: "dropWhile isSpace (c # s) = d # r"
    and rest: "rest = dropWhile isSpace r"
    by (auto simp: matchSep_def split: list.splits if_splits)
  have "length rest \<le> length r"
    unfolding rest by (rule length_dropWhile_le)
  moreover have "length (d # r) \<le> length (c # s)"
    unfolding d[symmetric] by (rule length_dropWhile_le)
  ultimately show "(([], rest), (piece, c # s)) \<in> measure (\<lambda>(piece, s). length s)"
    by simp
next
  fix piece :: string and c s
  show "((piece @ [c], s), (piece, c # s)) \<in> measure (\<lambda>(piece, s). length s)"
    by simp
qed

definition sentences :: "string \<Rightarrow> string list" where
  "sentences txt = filter (\<lambda>sentence. trim sentence \<noteq> []) (splitLoop [] txt)"

text \<open>
  The \<open>reduce\<close> over the sentences: each sentence is chunked against the words the
  previous one left, and its chunks are appended. An exception thrown by
  \<open>chunkSentence\<close> ends the whole call.
\<close>

fun reduceSentences :: "result \<Rightarrow> string list \<Rightarrow> error + result" where
  "reduceSentences res [] = Inr res"
| "reduceSentences res (sentence # ss) =
     (case chunkSentence sentence (remainingWords res) of
        Inl e \<Rightarrow> Inl e
      | Inr r \<Rightarrow> reduceSentences \<lparr>chunks = chunks res @ chunks r,
                                   remainingWords = remainingWords r\<rparr> ss)"

definition chunkText :: "string \<Rightarrow> Word list \<Rightarrow> error + result" where
  "chunkText txt words = reduceSentences \<lparr>chunks = [], remainingWords = words\<rparr> (sentences txt)"

section \<open>Bookkeeping for the claims\<close>


text \<open>
  The value of \<open>index\<close> in each iteration of the loop that finds its word: the position
  in the sentence that the word is bound to.
\<close>

fun bindings :: "string \<Rightarrow> cursor \<Rightarrow> Word list \<Rightarrow> nat list" where
  "bindings sentence cur [] = []"
| "bindings sentence cur (w # ws) =
     (case indexOf sentence (word w) (chunkEndIndex cur) of
        None \<Rightarrow> []
      | Some index \<Rightarrow>
          index #
          (if int index + int (length (word w)) - int (chunkStartIndex cur) > 30 then
             bindings sentence
               \<lparr>chunkStartIndex = index, chunkEndIndex = index,
                chunkStartTime = wstart w, chunkEndTime = wend w\<rparr> ws
           else
             bindings sentence
               (cur\<lparr>chunkEndIndex := index + length (word w), chunkEndTime := wend w\<rparr>) ws))"

text \<open>
  The words that contribute to each span. \<open>assignLoop\<close> follows the loop of
  \<open>chunkSentence\<close> branch by branch: \<open>gs\<close> holds the words of every span already
  pushed, \<open>g\<close> the words of the span under construction. A word that opens a new span
  is the first word of that span; a word that extends the span is added to it.
\<close>

fun assignLoop :: "string \<Rightarrow> cursor \<Rightarrow> Word list list \<Rightarrow> Word list \<Rightarrow> Word list \<Rightarrow> Word list list \<times> Word list" where
  "assignLoop sentence cur gs g [] = (gs, g)"
| "assignLoop sentence cur gs g (w # ws) =
     (case indexOf sentence (word w) (chunkEndIndex cur) of
        None \<Rightarrow> (gs, g)
      | Some index \<Rightarrow>
          if int index + int (length (word w)) - int (chunkStartIndex cur) > 30 then
            assignLoop sentence
              \<lparr>chunkStartIndex = index, chunkEndIndex = index,
               chunkStartTime = wstart w, chunkEndTime = wend w\<rparr> (gs @ [g]) [w] ws
          else
            assignLoop sentence
              (cur\<lparr>chunkEndIndex := index + length (word w), chunkEndTime := wend w\<rparr>)
              gs (g @ [w]) ws)"

text \<open>
  For each chunk that \<open>chunkSentence\<close> returns, the words of its own span and the words
  of a short final span merged into it (none unless it is the last chunk and the merge
  was taken).
\<close>

definition assignSentence :: "string \<Rightarrow> Word list \<Rightarrow> (Word list \<times> Word list) list" where
  "assignSentence sentence words =
     (case words of
        [] \<Rightarrow> []
      | w0 # _ \<Rightarrow>
          (case chunkLoop sentence [] (initCursor w0) words of
             (cs, cur, rest) \<Rightarrow>
               (case assignLoop sentence (initCursor w0) [] [] words of
                  (gs, g) \<Rightarrow>
                    if chunkEndTime cur - chunkStartTime cur < 1 / 2 then
                      (if gs = [] then []
                       else map (\<lambda>x. (x, [])) (butlast gs) @ [(last gs, g)])
                    else map (\<lambda>x. (x, [])) (gs @ [g]))))"

fun assignSentences :: "string list \<Rightarrow> Word list \<Rightarrow> (Word list \<times> Word list) list" where
  "assignSentences [] ws = []"
| "assignSentences (sentence # ss) ws =
     (case chunkSentence sentence ws of
        Inl e \<Rightarrow> []
      | Inr r \<Rightarrow> assignSentence sentence ws @ assignSentences ss (remainingWords r))"

text \<open>
  A chunk agrees with the words assigned to it: it starts with the first contributing
  word, and it ends with the last word of its own span.
\<close>

definition timedBy :: "Chunk \<Rightarrow> Word list \<times> Word list \<Rightarrow> bool" where
  "timedBy c a =
     ((fst a @ snd a \<noteq> [] \<longrightarrow> cstart c = wstart (hd (fst a @ snd a))) \<and>
      (fst a \<noteq> [] \<longrightarrow> cend c = wend (last (fst a))))"

text \<open>
  The offset in whole milliseconds as the code hands it to \<open>Date\<close>: the floor of the
  seconds, and the fraction times 1000, multiplied as doubles and rounded by
  \<open>Math.round\<close>.
\<close>

definition offsetMillis :: "rat \<Rightarrow> int" where
  "offsetMillis seconds = \<lfloor>seconds\<rfloor> * 1000 + jsRound (roundDouble (jsMod1 seconds * 1000))"

text \<open>
  The time code of a duration of \<open>ms\<close> milliseconds as the specification words it:
  hours, minutes and seconds by integer division and modulo, then the milliseconds;
  \<open>sep\<close> stands between seconds and milliseconds.
\<close>

definition spec_timecode :: "string \<Rightarrow> int \<Rightarrow> string" where
  "spec_timecode sep ms =
     pad2 (ms div 3600000) @ '':'' @ pad2 (ms div 60000 mod 60) @ '':''
     @ pad2 (ms div 1000 mod 60) @ sep @ pad3 (ms mod 1000)"




text \<open>
  The invariant that ties the loop of \<open>chunkSentence\<close> to \<open>assignLoop\<close>: every
  pushed chunk and the span under construction carry the times of their words, and a
  span without words can only be the first one, pushed before any word was taken.
\<close>

definition spanInv :: "Chunk list \<Rightarrow> cursor \<Rightarrow> Word list list \<Rightarrow> Word list \<Rightarrow> bool" where
  "spanInv cs cur gs g =
     (list_all2 (\<lambda>c x. timedBy c (x, [])) cs gs \<and>
      (g \<noteq> [] \<longrightarrow> chunkStartTime cur = wstart (hd g) \<and> chunkEndTime cur = wend (last g)) \<and>
      (g = [] \<longrightarrow> gs = []) \<and>
      (gs \<noteq> [] \<and> last gs = [] \<longrightarrow> cstart (last cs) = wstart (hd g)))"

section \<open>Auxiliary facts\<close>

lemma update_last: "cs \<noteq> [] \<Longrightarrow> cs[length cs - Suc 0 := x] = butlast cs @ [x]"
  by (induction cs rule: rev_induct) (simp_all add: list_update_append)

lemma nth_last: "cs \<noteq> [] \<Longrightarrow> cs ! (length cs - Suc 0) = last cs"
  by (simp add: last_conv_nth)

lemma finishChunks_Inr:
  "finishChunks sentence cs cur = Inr cs' \<Longrightarrow>
   (chunkEndTime cur - chunkStartTime cur < 1 / 2 \<and> cs \<noteq> [] \<and>
      cs' = butlast cs @ [(last cs)\<lparr>ctext := ctext (last cs) @ '' ''
                @ sliceFrom sentence (chunkStartIndex cur)\<rparr>])
   \<or> (\<not> chunkEndTime cur - chunkStartTime cur < 1 / 2 \<and>
      cs' = cs @ [\<lparr>ctext = sliceFrom sentence (chunkStartIndex cur),
                   cstart = chunkStartTime cur, cend = chunkEndTime cur\<rparr>])"
  by (cases "cs = []") (auto simp: finishChunks_def update_last nth_last split: if_splits)

lemma chunkSentence_Inr:
  "chunkSentence sentence ws = Inr r \<Longrightarrow>
   \<exists>w0 tl cs cur. ws = w0 # tl \<and>
      chunkLoop sentence [] (initCursor w0) ws = (cs, cur, remainingWords r) \<and>
      finishChunks sentence cs cur = Inr (chunks r)"
  by (auto simp: chunkSentence_def split: list.splits prod.splits sum.splits)

text \<open>
  One iteration that finds its word, as an equation between two runs of the loop.
\<close>

lemma chunkLoop_step:
  "indexOf sentence (word w) (chunkEndIndex cur) = Some index \<Longrightarrow>
   chunkLoop sentence cs cur (w # ws) =
     chunkLoop sentence
       (if int index + int (length (word w)) - int (chunkStartIndex cur) > 30
        then cs @ [\<lparr>ctext = slice sentence (chunkStartIndex cur) (chunkEndIndex cur),
                     cstart = chunkStartTime cur, cend = chunkEndTime cur\<rparr>]
        else cs)
       (if int index + int (length (word w)) - int (chunkStartIndex cur) > 30
        then \<lparr>chunkStartIndex = index, chunkEndIndex = index,
              chunkStartTime = wstart w, chunkEndTime = wend w\<rparr>
        else cur\<lparr>chunkEndIndex := index + length (word w), chunkEndTime := wend w\<rparr>)
       ws"
  by simp

lemma chunkLoop_remainder:
  "chunkLoop sentence cs cur ws = (cs', cur', rest) \<Longrightarrow>
   \<exists>k\<le>length ws. rest = drop k ws \<and>
      chunkLoop sentence cs cur (take k ws) = (cs', cur', []) \<and>
      (k < length ws \<longrightarrow> indexOf sentence (word (ws ! k)) (chunkEndIndex cur') = None)"
proof (induction ws arbitrary: cs cur)
  case Nil
  then show ?case by simp
next
  case (Cons w ws)
  show ?case
  proof (cases "indexOf sentence (word w) (chunkEndIndex cur)")
    case None
    with Cons.prems have "cs' = cs" "cur' = cur" "rest = w # ws" by simp_all
    with None show ?thesis by (intro exI[of _ 0]) simp
  next
    case (Some index)
    note step = chunkLoop_step[OF Some, of cs]
    from Cons.prems have run: "chunkLoop sentence cs cur (w # ws) = (cs', cur', rest)" .
    from Cons.IH[OF run[unfolded step]] obtain k where k: "k \<le> length ws" "rest = drop k ws"
      and pre: "chunkLoop sentence cs cur (w # take k ws) = (cs', cur', [])"
      and stop: "k < length ws \<longrightarrow> indexOf sentence (word (ws ! k)) (chunkEndIndex cur') = None"
      unfolding step by blast
    show ?thesis
      using k pre stop by (intro exI[of _ "Suc k"]) simp
  qed
qed





lemma chunkLoop_times:
  "chunkLoop sentence cs cur ws = (cs', cur', rest) \<Longrightarrow>
   sorted (map wstart ws) \<Longrightarrow> \<forall>w\<in>set ws. wstart w \<le> wend w \<Longrightarrow>
   sorted (map cstart cs) \<Longrightarrow>
   \<forall>c\<in>set cs. cstart c \<le> cend c \<and> L \<le> cstart c \<and> cstart c \<le> chunkStartTime cur \<Longrightarrow>
   L \<le> chunkStartTime cur \<Longrightarrow> chunkStartTime cur \<le> chunkEndTime cur \<Longrightarrow>
   \<forall>w\<in>set ws. chunkStartTime cur \<le> wstart w \<Longrightarrow>
   sorted (map cstart cs') \<and>
   (\<forall>c\<in>set cs'. cstart c \<le> cend c \<and> L \<le> cstart c \<and> cstart c \<le> chunkStartTime cur') \<and>
   L \<le> chunkStartTime cur' \<and> chunkStartTime cur' \<le> chunkEndTime cur' \<and>
   (\<forall>w\<in>set rest. chunkStartTime cur' \<le> wstart w)"
proof (induction ws arbitrary: cs cur)
  case Nil
  then show ?case by simp
next
  case (Cons w ws)
  from Cons.prems(2) have sws: "sorted (map wstart ws)"
    and wle: "\<forall>v\<in>set ws. wstart w \<le> wstart v" by simp_all
  from Cons.prems(3) have ww: "wstart w \<le> wend w" and wws: "\<forall>v\<in>set ws. wstart v \<le> wend v"
    by simp_all
  from Cons.prems(8) have cw: "chunkStartTime cur \<le> wstart w"
    and cws: "\<forall>v\<in>set ws. chunkStartTime cur \<le> wstart v" by simp_all
  show ?case
  proof (cases "indexOf sentence (word w) (chunkEndIndex cur)")
    case None
    with Cons.prems show ?thesis by simp
  next
    case (Some index)
    show ?thesis
    proof (cases "int index + int (length (word w)) - int (chunkStartIndex cur) > 30")
      case True
      let ?c = "\<lparr>ctext = slice sentence (chunkStartIndex cur) (chunkEndIndex cur),
                   cstart = chunkStartTime cur, cend = chunkEndTime cur\<rparr>"
      let ?cur = "\<lparr>chunkStartIndex = index, chunkEndIndex = index,
            chunkStartTime = wstart w, chunkEndTime = wend w\<rparr>"
      from True Some Cons.prems(1) have run: "chunkLoop sentence (cs @ [?c]) ?cur ws = (cs', cur', rest)"
        by simp
      have 1: "sorted (map cstart (cs @ [?c]))"
        using Cons.prems(4,5) by (simp add: sorted_append)
      have 2: "\<forall>c\<in>set (cs @ [?c]). cstart c \<le> cend c \<and> L \<le> cstart c \<and> cstart c \<le> chunkStartTime ?cur"
        using Cons.prems(5,6,7) cw by auto
      have 3: "L \<le> chunkStartTime ?cur" using Cons.prems(6) cw by simp
      have 4: "chunkStartTime ?cur \<le> chunkEndTime ?cur" using ww by simp
      have 5: "\<forall>v\<in>set ws. chunkStartTime ?cur \<le> wstart v" using wle by simp
      from Cons.IH[OF run sws wws 1 2 3 4 5] show ?thesis .
    next
      case False
      let ?cur = "cur\<lparr>chunkEndIndex := index + length (word w), chunkEndTime := wend w\<rparr>"
      from False Some Cons.prems(1) have run: "chunkLoop sentence cs ?cur ws = (cs', cur', rest)"
        by simp
      have 2: "\<forall>c\<in>set cs. cstart c \<le> cend c \<and> L \<le> cstart c \<and> cstart c \<le> chunkStartTime ?cur"
        using Cons.prems(5) by simp
      have 3: "L \<le> chunkStartTime ?cur" using Cons.prems(6) by simp
      have 4: "chunkStartTime ?cur \<le> chunkEndTime ?cur" using ww cw by simp
      have 5: "\<forall>v\<in>set ws. chunkStartTime ?cur \<le> wstart v" using cws by simp
      from Cons.IH[OF run sws wws Cons.prems(4) 2 3 4 5] show ?thesis .
    qed
  qed
qed

lemma finishChunks_times:
  assumes fin: "finishChunks sentence cs cur = Inr cs'"
  shows "map cstart cs' = map cstart cs \<and> map cend cs' = map cend cs \<or>
         map cstart cs' = map cstart cs @ [chunkStartTime cur] \<and>
         map cend cs' = map cend cs @ [chunkEndTime cur]"
proof -
  from finishChunks_Inr[OF fin] show ?thesis
  proof
    assume m: "chunkEndTime cur - chunkStartTime cur < 1 / 2 \<and> cs \<noteq> [] \<and>
      cs' = butlast cs @ [(last cs)\<lparr>ctext := ctext (last cs) @ '' ''
                @ sliceFrom sentence (chunkStartIndex cur)\<rparr>]"
    then have "cs = butlast cs @ [last cs]" by simp
    then have "map cstart cs = map cstart (butlast cs) @ [cstart (last cs)]"
      and "map cend cs = map cend (butlast cs) @ [cend (last cs)]"
      by (metis list.simps(8,9) map_append)+
    with m show ?thesis by simp
  next
    assume "\<not> chunkEndTime cur - chunkStartTime cur < 1 / 2 \<and>
      cs' = cs @ [\<lparr>ctext = sliceFrom sentence (chunkStartIndex cur),
                   cstart = chunkStartTime cur, cend = chunkEndTime cur\<rparr>]"
    then show ?thesis by simp
  qed
qed

lemma chunkSentence_times:
  assumes run: "chunkSentence sentence ws = Inr r"
    and sws: "sorted (map wstart ws)"
    and wws: "\<forall>w\<in>set ws. wstart w \<le> wend w"
  shows "sorted (map cstart (chunks r)) \<and>
     (\<forall>c\<in>set (chunks r). cstart c \<le> cend c \<and> wstart (hd ws) \<le> cstart c \<and>
         (\<forall>w\<in>set (remainingWords r). cstart c \<le> wstart w))"
proof -
  from chunkSentence_Inr[OF run] obtain w0 tl cs cur where
    ws: "ws = w0 # tl"
    and loop: "chunkLoop sentence [] (initCursor w0) ws = (cs, cur, remainingWords r)"
    and fin: "finishChunks sentence cs cur = Inr (chunks r)"
    by blast
  have "\<forall>w\<in>set ws. chunkStartTime (initCursor w0) \<le> wstart w"
    using sws ws by (auto simp: initCursor_def)
  from chunkLoop_times[OF loop sws wws _ _ _ _ this, of "wstart w0"]
  have inv: "sorted (map cstart cs)"
    "\<forall>c\<in>set cs. cstart c \<le> cend c \<and> wstart w0 \<le> cstart c \<and> cstart c \<le> chunkStartTime cur"
    "wstart w0 \<le> chunkStartTime cur" "chunkStartTime cur \<le> chunkEndTime cur"
    "\<forall>w\<in>set (remainingWords r). chunkStartTime cur \<le> wstart w"
    by (simp_all add: initCursor_def)
  let ?P = "\<lambda>a b. a \<le> b \<and> wstart w0 \<le> a \<and> a \<le> chunkStartTime cur"
  have all: "list_all2 ?P (map cstart cs) (map cend cs)"
    using inv(2) by (simp add: list_all2_conv_all_nth)
  have fin2: "list_all2 ?P (map cstart (chunks r)) (map cend (chunks r))
           \<and> sorted (map cstart (chunks r))"
    using finishChunks_times[OF fin]
  proof
    assume "map cstart (chunks r) = map cstart cs \<and> map cend (chunks r) = map cend cs"
    with all inv(1) show ?thesis by simp
  next
    assume a: "map cstart (chunks r) = map cstart cs @ [chunkStartTime cur] \<and>
         map cend (chunks r) = map cend cs @ [chunkEndTime cur]"
    have "list_all2 ?P (map cstart cs @ [chunkStartTime cur]) (map cend cs @ [chunkEndTime cur])"
      using all inv(3,4) by (simp add: list_all2_appendI)
    moreover have "sorted (map cstart cs @ [chunkStartTime cur])"
      using inv(1,2) by (auto simp: sorted_append)
    ultimately show ?thesis using a by simp
  qed
  have each: "\<forall>c\<in>set (chunks r). cstart c \<le> cend c \<and> wstart w0 \<le> cstart c \<and> cstart c \<le> chunkStartTime cur"
  proof
    fix c assume "c \<in> set (chunks r)"
    then obtain i where i: "i < length (chunks r)" "chunks r ! i = c"
      by (auto simp: in_set_conv_nth)
    from fin2 i(1) have "?P (map cstart (chunks r) ! i) (map cend (chunks r) ! i)"
      by (simp add: list_all2_conv_all_nth)
    with i show "cstart c \<le> cend c \<and> wstart w0 \<le> cstart c \<and> cstart c \<le> chunkStartTime cur"
      by simp
  qed
  show ?thesis
    using fin2 each inv(5) ws by fastforce
qed

lemma chunkSentence_rest:
  assumes run: "chunkSentence sentence ws = Inr r"
  shows "ws \<noteq> [] \<and> (\<exists>k. remainingWords r = drop k ws)"
proof -
  from chunkSentence_Inr[OF run] obtain w0 tl cs cur where
    ws: "ws = w0 # tl"
    and loop: "chunkLoop sentence [] (initCursor w0) ws = (cs, cur, remainingWords r)"
    by blast
  from chunkLoop_remainder[OF loop] ws show ?thesis by blast
qed

lemma reduceSentences_times:
  "reduceSentences res ss = Inr r \<Longrightarrow>
   sorted (map wstart (remainingWords res)) \<Longrightarrow>
   \<forall>w\<in>set (remainingWords res). wstart w \<le> wend w \<Longrightarrow>
   sorted (map cstart (chunks res)) \<Longrightarrow>
   \<forall>c\<in>set (chunks res). cstart c \<le> cend c \<and> (\<forall>w\<in>set (remainingWords res). cstart c \<le> wstart w) \<Longrightarrow>
   sorted (map cstart (chunks r)) \<and> (\<forall>c\<in>set (chunks r). cstart c \<le> cend c)"
proof (induction ss arbitrary: res)
  case Nil
  then show ?case by simp
next
  case (Cons s ss)
  let ?ws = "remainingWords res"
  from Cons.prems(1) obtain r1 where r1: "chunkSentence s ?ws = Inr r1"
    and run: "reduceSentences \<lparr>chunks = chunks res @ chunks r1, remainingWords = remainingWords r1\<rparr> ss = Inr r"
    by (auto split: sum.splits)
  let ?res = "\<lparr>chunks = chunks res @ chunks r1, remainingWords = remainingWords r1\<rparr>"
  from chunkSentence_rest[OF r1] obtain k where ne: "?ws \<noteq> []" and k: "remainingWords r1 = drop k ?ws"
    by blast
  have sub: "set (remainingWords r1) \<subseteq> set ?ws"
    unfolding k by (rule set_drop_subset)
  have 1: "sorted (map wstart (remainingWords ?res))"
    using Cons.prems(2) k by (simp add: sorted_wrt_drop drop_map[symmetric] del: drop_map)
  have 2: "\<forall>w\<in>set (remainingWords ?res). wstart w \<le> wend w"
    using Cons.prems(3) sub by auto
  note t = chunkSentence_times[OF r1 Cons.prems(2,3)]
  have hdin: "hd ?ws \<in> set ?ws" using ne by simp
  have 3: "sorted (map cstart (chunks ?res))"
  proof -
    have "\<forall>c\<in>set (chunks res). \<forall>d\<in>set (chunks r1). cstart c \<le> cstart d"
    proof (intro ballI)
      fix c d assume c: "c \<in> set (chunks res)" and d: "d \<in> set (chunks r1)"
      from Cons.prems(5) c hdin have "cstart c \<le> wstart (hd ?ws)" by blast
      also from t d have "wstart (hd ?ws) \<le> cstart d" by blast
      finally show "cstart c \<le> cstart d" .
    qed
    with Cons.prems(4) t show ?thesis
      by (simp add: sorted_append)
  qed
  have 4: "\<forall>c\<in>set (chunks ?res). cstart c \<le> cend c \<and> (\<forall>w\<in>set (remainingWords ?res). cstart c \<le> wstart w)"
    using Cons.prems(5) t sub by auto
  from Cons.IH[OF run 1 2 3 4] show ?case .
qed

lemma spanInv_break:
  assumes inv: "spanInv cs cur gs g"
    and first: "g = [] \<longrightarrow> chunkStartTime cur = wstart w"
  shows "spanInv (cs @ [\<lparr>ctext = t, cstart = chunkStartTime cur, cend = chunkEndTime cur\<rparr>])
           \<lparr>chunkStartIndex = i, chunkEndIndex = j, chunkStartTime = wstart w, chunkEndTime = wend w\<rparr>
           (gs @ [g]) [w]"
  using inv first
  by (auto simp: spanInv_def timedBy_def list_all2_appendI)

lemma spanInv_extend:
  assumes inv: "spanInv cs cur gs g"
    and first: "g = [] \<longrightarrow> chunkStartTime cur = wstart w"
  shows "spanInv cs (cur\<lparr>chunkEndIndex := j, chunkEndTime := wend w\<rparr>) gs (g @ [w])"
  using inv first
  by (cases g) (auto simp: spanInv_def)

lemma assign_lockstep:
  "chunkLoop sentence cs cur ws = (cs', cur', rest) \<Longrightarrow>
   assignLoop sentence cur gs g ws = (gs', g') \<Longrightarrow>
   spanInv cs cur gs g \<Longrightarrow>
   (g = [] \<longrightarrow> ws \<noteq> [] \<longrightarrow> chunkStartTime cur = wstart (hd ws)) \<Longrightarrow>
   spanInv cs' cur' gs' g' \<and> concat gs' @ g' @ rest = concat gs @ g @ ws"
proof (induction ws arbitrary: cs cur gs g)
  case Nil
  then show ?case by simp
next
  case (Cons w ws)
  from Cons.prems(4) have first: "g = [] \<longrightarrow> chunkStartTime cur = wstart w" by simp
  show ?case
  proof (cases "indexOf sentence (word w) (chunkEndIndex cur)")
    case None
    with Cons.prems(1) have "cs' = cs" "cur' = cur" "rest = w # ws" by simp_all
    moreover from None Cons.prems(2) have "gs' = gs" "g' = g" by simp_all
    ultimately show ?thesis using Cons.prems(3) by simp
  next
    case (Some index)
    show ?thesis
    proof (cases "int index + int (length (word w)) - int (chunkStartIndex cur) > 30")
      case True
      let ?c = "\<lparr>ctext = slice sentence (chunkStartIndex cur) (chunkEndIndex cur),
                   cstart = chunkStartTime cur, cend = chunkEndTime cur\<rparr>"
      let ?cur = "\<lparr>chunkStartIndex = index, chunkEndIndex = index,
            chunkStartTime = wstart w, chunkEndTime = wend w\<rparr>"
      from True Some Cons.prems(1) have run: "chunkLoop sentence (cs @ [?c]) ?cur ws = (cs', cur', rest)"
        by simp
      from True Some Cons.prems(2) have asg: "assignLoop sentence ?cur (gs @ [g]) [w] ws = (gs', g')"
        by simp
      have inv: "spanInv (cs @ [?c]) ?cur (gs @ [g]) [w]"
        using Cons.prems(3) first by (rule spanInv_break)
      from Cons.IH[OF run asg inv] show ?thesis by simp
    next
      case False
      let ?cur = "cur\<lparr>chunkEndIndex := index + length (word w), chunkEndTime := wend w\<rparr>"
      from False Some Cons.prems(1) have run: "chunkLoop sentence cs ?cur ws = (cs', cur', rest)"
        by simp
      from False Some Cons.prems(2) have asg: "assignLoop sentence ?cur gs (g @ [w]) ws = (gs', g')"
        by simp
      have inv: "spanInv cs ?cur gs (g @ [w])"
        using Cons.prems(3) first by (rule spanInv_extend)
      from Cons.IH[OF run asg inv] show ?thesis by simp
    qed
  qed
qed

lemma list_all2_butlast_last:
  assumes "list_all2 P xs ys" and "xs \<noteq> []"
  shows "list_all2 P (butlast xs) (butlast ys) \<and> P (last xs) (last ys) \<and> ys \<noteq> []"
proof -
  from assms have len: "length xs = length ys" and ys: "ys \<noteq> []"
    by (auto dest: list_all2_lengthD)
  from assms(1) have nth: "\<forall>i<length xs. P (xs ! i) (ys ! i)"
    by (simp add: list_all2_conv_all_nth)
  have "list_all2 P (butlast xs) (butlast ys)"
    using nth len by (simp add: list_all2_conv_all_nth nth_butlast)
  moreover have "P (last xs) (last ys)"
    using nth len assms(2) ys by (simp add: last_conv_nth)
  ultimately show ?thesis using ys by simp
qed

lemma concat_butlast_last: "gs \<noteq> [] \<Longrightarrow> concat gs = concat (butlast gs) @ last gs"
  by (induction gs rule: rev_induct) simp_all

lemma chunkSentence_assign:
  assumes run: "chunkSentence sentence ws = Inr r"
  shows "list_all2 timedBy (chunks r) (assignSentence sentence ws) \<and>
         concat (map (\<lambda>a. fst a @ snd a) (assignSentence sentence ws)) @ remainingWords r = ws"
proof -
  from chunkSentence_Inr[OF run] obtain w0 tl cs cur where
    ws: "ws = w0 # tl"
    and loop: "chunkLoop sentence [] (initCursor w0) ws = (cs, cur, remainingWords r)"
    and fin: "finishChunks sentence cs cur = Inr (chunks r)"
    by blast
  obtain gs g where asg: "assignLoop sentence (initCursor w0) [] [] ws = (gs, g)"
    by (cases "assignLoop sentence (initCursor w0) [] [] ws")
  have "spanInv [] (initCursor w0) [] []"
    by (simp add: spanInv_def)
  from assign_lockstep[OF loop asg this] ws
  have inv: "spanInv cs cur gs g" and cat: "concat gs @ g @ remainingWords r = ws"
    by (simp_all add: initCursor_def)
  from inv have all: "list_all2 (\<lambda>c x. timedBy c (x, [])) cs gs"
    and cur: "g \<noteq> [] \<longrightarrow> chunkStartTime cur = wstart (hd g) \<and> chunkEndTime cur = wend (last g)"
    and weird: "gs \<noteq> [] \<and> last gs = [] \<longrightarrow> cstart (last cs) = wstart (hd g)"
    by (simp_all add: spanInv_def)
  have map2: "list_all2 timedBy cs (map (\<lambda>x. (x, [])) gs)"
    using all by (simp add: list_all2_map2)
  from finishChunks_Inr[OF fin] show ?thesis
  proof
    assume m: "chunkEndTime cur - chunkStartTime cur < 1 / 2 \<and> cs \<noteq> [] \<and>
      chunks r = butlast cs @ [(last cs)\<lparr>ctext := ctext (last cs) @ '' ''
                @ sliceFrom sentence (chunkStartIndex cur)\<rparr>]"
    let ?l = "(last cs)\<lparr>ctext := ctext (last cs) @ '' '' @ sliceFrom sentence (chunkStartIndex cur)\<rparr>"
    from m have short: "chunkEndTime cur - chunkStartTime cur < 1 / 2" and ne: "cs \<noteq> []"
      and cr: "chunks r = butlast cs @ [?l]" by simp_all
    from list_all2_butlast_last[OF all ne]
    have bl: "list_all2 (\<lambda>c x. timedBy c (x, [])) (butlast cs) (butlast gs)"
      and la: "timedBy (last cs) (last gs, [])" and gne: "gs \<noteq> []" by simp_all
    have A: "assignSentence sentence ws = map (\<lambda>x. (x, [])) (butlast gs) @ [(last gs, g)]"
      using ws loop asg short gne by (simp add: assignSentence_def)
    have "timedBy ?l (last gs, g)"
      using la weird gne by (cases "last gs = []") (auto simp: timedBy_def)
    with bl have "list_all2 timedBy (chunks r) (assignSentence sentence ws)"
      unfolding cr A by (simp add: list_all2_appendI list_all2_map2)
    moreover have "concat (map (\<lambda>a. fst a @ snd a) (assignSentence sentence ws)) = concat gs @ g"
      unfolding A using concat_butlast_last[OF gne] by (simp add: comp_def)
    ultimately show ?thesis using cat by simp
  next
    assume p: "\<not> chunkEndTime cur - chunkStartTime cur < 1 / 2 \<and>
      chunks r = cs @ [\<lparr>ctext = sliceFrom sentence (chunkStartIndex cur),
                   cstart = chunkStartTime cur, cend = chunkEndTime cur\<rparr>]"
    have A: "assignSentence sentence ws = map (\<lambda>x. (x, [])) (gs @ [g])"
      using ws loop asg p by (simp add: assignSentence_def)
    have "timedBy \<lparr>ctext = sliceFrom sentence (chunkStartIndex cur),
                   cstart = chunkStartTime cur, cend = chunkEndTime cur\<rparr> (g, [])"
      using cur by (simp add: timedBy_def)
    with map2 p have "list_all2 timedBy (chunks r) (assignSentence sentence ws)"
      unfolding A by (simp add: list_all2_appendI)
    moreover have "concat (map (\<lambda>a. fst a @ snd a) (assignSentence sentence ws)) = concat gs @ g"
      unfolding A by (simp add: comp_def)
    ultimately show ?thesis using cat by simp
  qed
qed

lemma reduceSentences_assign:
  "reduceSentences res ss = Inr r \<Longrightarrow>
   \<exists>cs. chunks r = chunks res @ cs \<and>
     list_all2 timedBy cs (assignSentences ss (remainingWords res)) \<and>
     concat (map (\<lambda>a. fst a @ snd a) (assignSentences ss (remainingWords res))) @ remainingWords r
       = remainingWords res"
proof (induction ss arbitrary: res)
  case Nil
  then show ?case by simp
next
  case (Cons s ss)
  let ?ws = "remainingWords res"
  from Cons.prems(1) obtain r1 where r1: "chunkSentence s ?ws = Inr r1"
    and run: "reduceSentences \<lparr>chunks = chunks res @ chunks r1, remainingWords = remainingWords r1\<rparr> ss = Inr r"
    by (auto split: sum.splits)
  from Cons.IH[OF run] obtain cs where cs: "chunks r = (chunks res @ chunks r1) @ cs"
    and all: "list_all2 timedBy cs (assignSentences ss (remainingWords r1))"
    and cat: "concat (map (\<lambda>a. fst a @ snd a) (assignSentences ss (remainingWords r1))) @ remainingWords r
       = remainingWords r1"
    by auto
  from chunkSentence_assign[OF r1]
  have all1: "list_all2 timedBy (chunks r1) (assignSentence s ?ws)"
    and cat1: "concat (map (\<lambda>a. fst a @ snd a) (assignSentence s ?ws)) @ remainingWords r1 = ?ws"
    by simp_all
  have A: "assignSentences (s # ss) ?ws = assignSentence s ?ws @ assignSentences ss (remainingWords r1)"
    using r1 by simp
  have "list_all2 timedBy (chunks r1 @ cs) (assignSentences (s # ss) ?ws)"
    unfolding A using all1 all by (rule list_all2_appendI)
  moreover have "concat (map (\<lambda>a. fst a @ snd a) (assignSentences (s # ss) ?ws)) @ remainingWords r = ?ws"
    unfolding A using cat cat1 by simp
  ultimately show ?case using cs by (intro exI[of _ "chunks r1 @ cs"]) simp
qed

lemma pow2_pos: "0 < pow2 e"
  by (simp add: pow2_def)

lemma roundHalfEven_nonneg: "0 \<le> x \<Longrightarrow> 0 \<le> roundHalfEven x"
proof -
  assume "0 \<le> x"
  then have "0 \<le> \<lfloor>x\<rfloor>" by simp
  then show ?thesis by (simp add: roundHalfEven_def Let_def)
qed

lemma roundDouble_nonneg: "0 \<le> x \<Longrightarrow> 0 \<le> roundDouble x"
proof (cases "x = 0")
  case True
  then show ?thesis by (simp add: roundDouble_def)
next
  case False
  assume x: "0 \<le> x"
  let ?q = "pow2 (max (exponent \<bar>x\<bar> - 52) (- 1074))"
  have q: "0 < ?q" by (rule pow2_pos)
  with x have "0 \<le> x / ?q" by simp
  then have "0 \<le> roundHalfEven (x / ?q)" by (rule roundHalfEven_nonneg)
  then have "0 \<le> (of_int (roundHalfEven (x / ?q)) :: rat) * ?q"
    using q by simp
  with False show ?thesis by (simp add: roundDouble_def Let_def)
qed

lemma offsetMillis_nonneg:
  assumes "0 \<le> seconds"
  shows "0 \<le> offsetMillis seconds"
proof -
  have F: "0 \<le> \<lfloor>seconds\<rfloor>" using assms by simp
  have "0 \<le> jsMod1 seconds * 1000"
    using assms by (simp add: jsMod1_def)
  then have "0 \<le> roundDouble (jsMod1 seconds * 1000)" by (rule roundDouble_nonneg)
  then have "0 \<le> roundDouble (jsMod1 seconds * 1000) + 1 / 2" by simp
  then have "0 \<le> jsRound (roundDouble (jsMod1 seconds * 1000))"
    unfolding jsRound_def by simp
  with F show ?thesis by (simp add: offsetMillis_def)
qed

lemma hours_of_day:
  fixes t :: int
  assumes "0 \<le> t" "t < 86400000"
  shows "t div 3600000 mod 24 = t div 3600000"
proof -
  have "0 \<le> t div 3600000" using assms(1) by simp
  moreover have "t div 3600000 < 24" using assms(2) by simp
  ultimately show ?thesis by simp
qed







text \<open>
  What a call of \<open>chunkSentence\<close> that returns hands on: \<open>words.slice(k)\<close>, where
  each of the first \<open>k\<close> words is found at the cursor that the words before it leave,
  and word \<open>k\<close>, if there is one, is not.
\<close>

lemma chunkLoop_consumed_found:
  "chunkLoop sentence cs cur pre = (cs', cur', []) \<Longrightarrow>
   \<forall>i<length pre. indexOf sentence (word (pre ! i))
      (chunkEndIndex (fst (snd (chunkLoop sentence cs cur (take i pre))))) \<noteq> None"
proof (induction pre arbitrary: cs cur)
  case Nil
  then show ?case by simp
next
  case (Cons w pre)
  show ?case
  proof (cases "indexOf sentence (word w) (chunkEndIndex cur)")
    case None
    with Cons.prems show ?thesis by simp
  next
    case (Some index)
    note step = chunkLoop_step[OF Some, of cs]
    from Cons.prems have run: "chunkLoop sentence cs cur (w # pre) = (cs', cur', [])" .
    note ih = Cons.IH[OF run[unfolded step]]
    show ?thesis
    proof (intro allI impI)
      fix i assume i: "i < length (w # pre)"
      show "indexOf sentence (word ((w # pre) ! i))
          (chunkEndIndex (fst (snd (chunkLoop sentence cs cur (take i (w # pre)))))) \<noteq> None"
      proof (cases i)
        case 0
        with Some show ?thesis by simp
      next
        case (Suc j)
        with i have j: "j < length pre" by simp
        have "chunkLoop sentence cs cur (take i (w # pre)) = chunkLoop sentence cs cur (w # take j pre)"
          using Suc by simp
        with ih j Suc show ?thesis
          unfolding step by simp
      qed
    qed
  qed
qed

lemma chunkSentence_remainder_returned:
  assumes "chunkSentence sentence ws = Inr r"
  shows "\<exists>k\<le>length ws. remainingWords r = drop k ws \<and>
    (\<forall>i<k. indexOf sentence (word (ws ! i))
         (chunkEndIndex (fst (snd (chunkLoop sentence [] (initCursor (hd ws)) (take i ws))))) \<noteq> None) \<and>
    (k < length ws \<longrightarrow> indexOf sentence (word (ws ! k))
         (chunkEndIndex (fst (snd (chunkLoop sentence [] (initCursor (hd ws)) (take k ws))))) = None)"
proof -
  from chunkSentence_Inr[OF assms] obtain w0 tl cs cur where
    ws: "ws = w0 # tl"
    and loop: "chunkLoop sentence [] (initCursor w0) ws = (cs, cur, remainingWords r)"
    by blast
  from chunkLoop_remainder[OF loop] obtain k where k: "k \<le> length ws"
    and rest: "remainingWords r = drop k ws"
    and pre: "chunkLoop sentence [] (initCursor w0) (take k ws) = (cs, cur, [])"
    and stop: "k < length ws \<longrightarrow> indexOf sentence (word (ws ! k)) (chunkEndIndex cur) = None"
    by blast
  have hd0: "hd ws = w0" using ws by simp
  have "\<forall>i<k. indexOf sentence (word (ws ! i))
         (chunkEndIndex (fst (snd (chunkLoop sentence [] (initCursor w0) (take i ws))))) \<noteq> None"
    using chunkLoop_consumed_found[OF pre] k by (simp add: min_absorb2)
  with k rest pre stop show ?thesis
    unfolding hd0 by (intro exI[of _ k]) simp
qed

section \<open>The claims\<close>

text \<open>
  C1, as the code has it. The claim is that \<open>secondsToSRT\<close> gives \<open>HH:MM:SS.mmm\<close>
  from the offset alone and \<open>00:01:15.256\<close> for 75.256. The code separates the
  milliseconds with a comma, as the locale \<open>de\<close> does, its result depends on the time
  zone of the process, and its hours start again at 24. What holds: when the process
  runs at the UTC offset of Europe/Berlin, a non-negative offset that the code rounds to
  less than 24 hours of milliseconds is shown as the twelve characters \<open>HH:MM:SS,mmm\<close>
  of that number of milliseconds. The milliseconds are the floor of the seconds times
  1000 plus \<open>Math.round\<close> of the double product of the fraction and 1000.
\<close>

theorem secondsToSRT_berlin:
  assumes tz: "localTZA = berlinTZA"
    and nonneg: "0 \<le> seconds"
    and day: "offsetMillis seconds < 86400000"
  shows "secondsToSRT localTZA seconds = spec_timecode '','' (offsetMillis seconds) \<and>
    length (secondsToSRT localTZA seconds) = 12"
proof -
  let ?t = "offsetMillis seconds"
  have tv: "newDate localTZA \<lfloor>seconds\<rfloor> (jsRound (roundDouble (jsMod1 seconds * 1000)))
      + berlinTZA = ?t"
    by (simp add: newDate_def offsetMillis_def tz)
  have h: "?t div 3600000 mod 24 = ?t div 3600000"
    using offsetMillis_nonneg[OF nonneg] day by (rule hours_of_day)
  have eq: "secondsToSRT localTZA seconds = spec_timecode '','' ?t"
    unfolding secondsToSRT_def formatterTime_def Let_def tv h spec_timecode_def ..
  have "length (spec_timecode '','' ?t) = 12"
    by (simp add: spec_timecode_def pad2_def pad3_def)
  with eq show ?thesis by simp
qed

text \<open>
  The double 75.256 in a process at the offset of Berlin gives \<open>00:01:15,256\<close>. The
  double 0.0045 has a fraction whose product with 1000 is the double 4.5, shown as 5
  milliseconds, and for 0.9996 the rounded 1000 milliseconds carry into the seconds.
\<close>

theorem secondsToSRT_berlin_witness:
  "(0::rat) \<le> roundDouble (75256 / 1000) \<and>
   offsetMillis (roundDouble (75256 / 1000)) = 75256 \<and>
   secondsToSRT berlinTZA (roundDouble (75256 / 1000)) = ''00:01:15,256'' \<and>
   secondsToSRT berlinTZA (roundDouble (45 / 10000)) = ''00:00:00,005'' \<and>
   secondsToSRT berlinTZA (roundDouble (9996 / 10000)) = ''00:00:01,000''"
proof -
  have 1: "(0::rat) \<le> roundDouble (75256 / 1000)" by code_simp
  have 2: "offsetMillis (roundDouble (75256 / 1000)) = 75256" by code_simp
  have 3: "offsetMillis (roundDouble (75256 / 1000)) < 86400000" unfolding 2 by simp
  have 4: "spec_timecode '','' 75256 = ''00:01:15,256''" by code_simp
  have 5: "secondsToSRT berlinTZA (roundDouble (45 / 10000)) = ''00:00:00,005''"
    by code_simp
  have 6: "secondsToSRT berlinTZA (roundDouble (9996 / 10000)) = ''00:00:01,000''"
    by code_simp
  from secondsToSRT_berlin[OF refl 1 3] 1 2 4 5 6 show ?thesis
    by simp
qed

text \<open>
  Against C1 as stated: at the offset of Berlin the result for 75.256 is not
  \<open>00:01:15.256\<close>; a process at UTC gets a different string for the same offset; and
  an offset of 25 hours is shown with the hour 01.
\<close>

theorem secondsToSRT_counterexample:
  "secondsToSRT berlinTZA (roundDouble (75256 / 1000)) \<noteq> ''00:01:15.256'' \<and>
   secondsToSRT 0 (roundDouble (75256 / 1000))
     \<noteq> secondsToSRT berlinTZA (roundDouble (75256 / 1000)) \<and>
   secondsToSRT berlinTZA 90000 = ''01:00:00,000''"
  by code_simp

text \<open>
  C2. The claim is that a sentence whose only span lasts less than half a second, such
  as one whose first word is not found, still yields that span. The code throws instead:
  with no chunk pushed, the merge reads the text of \<open>chunks[-1]\<close>. Both runs below end
  in the \<open>TypeError\<close>: the first word is not found in the one, the only word lasts 0.3
  seconds in the other.
\<close>

theorem chunkSentence_lone_short_span_throws:
  "chunkSentence ''Hello'' [\<lparr>word = ''xyz'', wstart = 0, wend = 1\<rparr>] = Inl TypeError \<and>
   chunkSentence ''Hi'' [\<lparr>word = ''Hi'', wstart = 0, wend = 3 / 10\<rparr>] = Inl TypeError"
  by code_simp

text \<open>
  C3, as the code has it. Whenever \<open>chunkText\<close> returns, the words assigned to its
  chunks, chunk after chunk, followed by the remaining words, are the word sequence: a
  word belongs to at most one chunk. Every chunk with a contributing word starts at the
  start of its first contributing word, and ends at the end of the last word of its own
  span. The words of a short final span that was merged into the chunk contribute text
  to it but do not move its end.
\<close>

theorem chunkText_assignment:
  assumes "chunkText txt ws = Inr r"
  shows "list_all2 timedBy (chunks r) (assignSentences (sentences txt) ws) \<and>
     concat (map (\<lambda>a. fst a @ snd a) (assignSentences (sentences txt) ws)) @ remainingWords r = ws"
  using reduceSentences_assign[of "\<lparr>chunks = [], remainingWords = ws\<rparr>" "sentences txt" r] assms
  by (auto simp: chunkText_def)

text \<open>
  A sentence of 35 characters: the seventh word opens a second span of 0.3 seconds,
  which is merged into the first chunk.
\<close>

theorem chunkText_assignment_witness:
  "chunkText ''The quick brown fox jumps over dogs''
     [\<lparr>word = ''The'', wstart = 0, wend = 2 / 10\<rparr>,
      \<lparr>word = ''quick'', wstart = 2 / 10, wend = 6 / 10\<rparr>,
      \<lparr>word = ''brown'', wstart = 6 / 10, wend = 1\<rparr>,
      \<lparr>word = ''fox'', wstart = 1, wend = 13 / 10\<rparr>,
      \<lparr>word = ''jumps'', wstart = 13 / 10, wend = 17 / 10\<rparr>,
      \<lparr>word = ''over'', wstart = 17 / 10, wend = 2\<rparr>,
      \<lparr>word = ''dogs'', wstart = 2, wend = 23 / 10\<rparr>]
   = Inr \<lparr>chunks = [\<lparr>ctext = ''The quick brown fox jumps over dogs'', cstart = 0, cend = 2\<rparr>],
          remainingWords = []\<rparr> \<and>
   cstart \<lparr>ctext = ''The quick brown fox jumps over dogs'', cstart = 0, cend = 2\<rparr>
     = wstart \<lparr>word = ''The'', wstart = 0, wend = 2 / 10\<rparr> \<and>
   cend \<lparr>ctext = ''The quick brown fox jumps over dogs'', cstart = 0, cend = 2\<rparr>
     = wend \<lparr>word = ''over'', wstart = 17 / 10, wend = 2\<rparr>"
proof -
  let ?txt = "''The quick brown fox jumps over dogs''"
  let ?ws = "[\<lparr>word = ''The'', wstart = 0, wend = 2 / 10\<rparr>,
      \<lparr>word = ''quick'', wstart = 2 / 10, wend = 6 / 10\<rparr>,
      \<lparr>word = ''brown'', wstart = 6 / 10, wend = 1\<rparr>,
      \<lparr>word = ''fox'', wstart = 1, wend = 13 / 10\<rparr>,
      \<lparr>word = ''jumps'', wstart = 13 / 10, wend = 17 / 10\<rparr>,
      \<lparr>word = ''over'', wstart = 17 / 10, wend = 2\<rparr>,
      \<lparr>word = ''dogs'', wstart = 2, wend = 23 / 10\<rparr>]"
  let ?c = "\<lparr>ctext = ''The quick brown fox jumps over dogs'', cstart = 0, cend = 2\<rparr>"
  let ?own = "[\<lparr>word = ''The'', wstart = 0, wend = 2 / 10\<rparr>,
      \<lparr>word = ''quick'', wstart = 2 / 10, wend = 6 / 10\<rparr>,
      \<lparr>word = ''brown'', wstart = 6 / 10, wend = 1\<rparr>,
      \<lparr>word = ''fox'', wstart = 1, wend = 13 / 10\<rparr>,
      \<lparr>word = ''jumps'', wstart = 13 / 10, wend = 17 / 10\<rparr>,
      \<lparr>word = ''over'', wstart = 17 / 10, wend = 2\<rparr>]"
  let ?merged = "[\<lparr>word = ''dogs'', wstart = 2, wend = 23 / 10\<rparr>]"
  have run: "chunkText ?txt ?ws = Inr \<lparr>chunks = [?c], remainingWords = []\<rparr>"
    by code_simp
  have asg: "assignSentences (sentences ?txt) ?ws = [(?own, ?merged)]"
    by code_simp
  from chunkText_assignment[OF run]
  have "list_all2 timedBy [?c] (assignSentences (sentences ?txt) ?ws)"
    by simp
  then have "timedBy ?c (?own, ?merged)"
    unfolding asg by simp
  then have "cstart ?c = wstart \<lparr>word = ''The'', wstart = 0, wend = 2 / 10\<rparr> \<and>
     cend ?c = wend \<lparr>word = ''over'', wstart = 17 / 10, wend = 2\<rparr>"
    by (simp add: timedBy_def)
  with run show ?thesis by simp
qed

text \<open>
  Against C3 as stated: in the same run the last word that contributes to the chunk is
  \<open>dogs\<close>, which ends at 2.3, and the chunk ends at 2.
\<close>

theorem merged_chunk_end_counterexample:
  "chunkText ''The quick brown fox jumps over dogs''
     [\<lparr>word = ''The'', wstart = 0, wend = 2 / 10\<rparr>,
      \<lparr>word = ''quick'', wstart = 2 / 10, wend = 6 / 10\<rparr>,
      \<lparr>word = ''brown'', wstart = 6 / 10, wend = 1\<rparr>,
      \<lparr>word = ''fox'', wstart = 1, wend = 13 / 10\<rparr>,
      \<lparr>word = ''jumps'', wstart = 13 / 10, wend = 17 / 10\<rparr>,
      \<lparr>word = ''over'', wstart = 17 / 10, wend = 2\<rparr>,
      \<lparr>word = ''dogs'', wstart = 2, wend = 23 / 10\<rparr>]
   = Inr \<lparr>chunks = [\<lparr>ctext = ''The quick brown fox jumps over dogs'', cstart = 0, cend = 2\<rparr>],
          remainingWords = []\<rparr> \<and>
   map (\<lambda>a. last (fst a @ snd a))
     (assignSentences (sentences ''The quick brown fox jumps over dogs'')
     [\<lparr>word = ''The'', wstart = 0, wend = 2 / 10\<rparr>,
      \<lparr>word = ''quick'', wstart = 2 / 10, wend = 6 / 10\<rparr>,
      \<lparr>word = ''brown'', wstart = 6 / 10, wend = 1\<rparr>,
      \<lparr>word = ''fox'', wstart = 1, wend = 13 / 10\<rparr>,
      \<lparr>word = ''jumps'', wstart = 13 / 10, wend = 17 / 10\<rparr>,
      \<lparr>word = ''over'', wstart = 17 / 10, wend = 2\<rparr>,
      \<lparr>word = ''dogs'', wstart = 2, wend = 23 / 10\<rparr>])
   = [\<lparr>word = ''dogs'', wstart = 2, wend = 23 / 10\<rparr>] \<and>
   cend \<lparr>ctext = ''The quick brown fox jumps over dogs'', cstart = 0, cend = 2\<rparr>
     \<noteq> wend \<lparr>word = ''dogs'', wstart = 2, wend = 23 / 10\<rparr>"
  by code_simp




text \<open>
  C5. For words with non-decreasing start times, each starting no later than it ends,
  every chunk that \<open>chunkText\<close> returns starts no later than it ends, and the start
  times of the chunks are non-decreasing: each chunk starts no later than the next.
\<close>

theorem chunkText_time_order:
  assumes "chunkText txt ws = Inr r"
    and "sorted (map wstart ws)"
    and "\<forall>w\<in>set ws. wstart w \<le> wend w"
  shows "(\<forall>c\<in>set (chunks r). cstart c \<le> cend c) \<and>
     sorted (map cstart (chunks r)) \<and>
     (\<forall>i. Suc i < length (chunks r) \<longrightarrow> cstart (chunks r ! i) \<le> cstart (chunks r ! Suc i))"
proof -
  from reduceSentences_times[of "\<lparr>chunks = [], remainingWords = ws\<rparr>" "sentences txt" r] assms
  have le: "\<forall>c\<in>set (chunks r). cstart c \<le> cend c" and so: "sorted (map cstart (chunks r))"
    by (simp_all add: chunkText_def)
  have "cstart (chunks r ! i) \<le> cstart (chunks r ! Suc i)" if "Suc i < length (chunks r)" for i
    using sorted_nth_mono[OF so, of i "Suc i"] that by simp
  with le so show ?thesis by blast
qed

theorem chunkText_time_order_witness:
  "chunkText ''Hello world. Goodbye now.''
     [\<lparr>word = ''Hello'', wstart = 0, wend = 4 / 10\<rparr>,
      \<lparr>word = ''world'', wstart = 4 / 10, wend = 9 / 10\<rparr>,
      \<lparr>word = ''Goodbye'', wstart = 1, wend = 16 / 10\<rparr>,
      \<lparr>word = ''now'', wstart = 16 / 10, wend = 19 / 10\<rparr>]
   = Inr \<lparr>chunks = [\<lparr>ctext = ''Hello world'', cstart = 0, cend = 9 / 10\<rparr>,
                     \<lparr>ctext = ''Goodbye now'', cstart = 1, cend = 19 / 10\<rparr>],
          remainingWords = []\<rparr> \<and>
   sorted (map wstart [\<lparr>word = ''Hello'', wstart = 0, wend = 4 / 10\<rparr>,
      \<lparr>word = ''world'', wstart = 4 / 10, wend = 9 / 10\<rparr>,
      \<lparr>word = ''Goodbye'', wstart = 1, wend = 16 / 10\<rparr>,
      \<lparr>word = ''now'', wstart = 16 / 10, wend = 19 / 10\<rparr>]) \<and>
   sorted (map cstart [\<lparr>ctext = ''Hello world'', cstart = 0, cend = 9 / 10\<rparr>,
                       \<lparr>ctext = ''Goodbye now'', cstart = 1, cend = 19 / 10\<rparr>]) \<and>
   cstart \<lparr>ctext = ''Hello world'', cstart = 0, cend = 9 / 10\<rparr>
     \<le> cend \<lparr>ctext = ''Hello world'', cstart = 0, cend = 9 / 10\<rparr> \<and>
   cstart \<lparr>ctext = ''Goodbye now'', cstart = 1, cend = 19 / 10\<rparr>
     \<le> cend \<lparr>ctext = ''Goodbye now'', cstart = 1, cend = 19 / 10\<rparr>"
proof -
  let ?ws = "[\<lparr>word = ''Hello'', wstart = 0, wend = 4 / 10\<rparr>,
      \<lparr>word = ''world'', wstart = 4 / 10, wend = 9 / 10\<rparr>,
      \<lparr>word = ''Goodbye'', wstart = 1, wend = 16 / 10\<rparr>,
      \<lparr>word = ''now'', wstart = 16 / 10, wend = 19 / 10\<rparr>]"
  let ?c1 = "\<lparr>ctext = ''Hello world'', cstart = 0, cend = 9 / 10\<rparr>"
  let ?c2 = "\<lparr>ctext = ''Goodbye now'', cstart = 1, cend = 19 / 10\<rparr>"
  have run: "chunkText ''Hello world. Goodbye now.'' ?ws
      = Inr \<lparr>chunks = [?c1, ?c2], remainingWords = []\<rparr>"
    by code_simp
  have so: "sorted (map wstart ?ws)" by simp
  have le: "\<forall>w\<in>set ?ws. wstart w \<le> wend w" by simp
  from chunkText_time_order[OF run so le]
  have "(\<forall>c\<in>set [?c1, ?c2]. cstart c \<le> cend c) \<and> sorted (map cstart [?c1, ?c2])"
    by simp
  then have "cstart ?c1 \<le> cend ?c1 \<and> cstart ?c2 \<le> cend ?c2 \<and> sorted (map cstart [?c1, ?c2])"
    by simp
  with run so show ?thesis by simp
qed

text \<open>
  C6. The claim is that \<open>chunkSentence\<close> returns the words from the first unconsumed
  one on, and that a word that is not found ends the consumption and is handed on with
  all words after it. In the run below the first word is not found: the loop stops with
  all three words left, but no chunk was pushed and the span lasts 0 seconds, so the
  merge throws before the remainder is returned, and \<open>chunkText\<close> throws with it.
\<close>

theorem chunkSentence_unmatched_first_word_throws:
  "chunkSentence ''Hello world''
     [\<lparr>word = ''xyz'', wstart = 0, wend = 1\<rparr>,
      \<lparr>word = ''Hello'', wstart = 1, wend = 15 / 10\<rparr>,
      \<lparr>word = ''world'', wstart = 15 / 10, wend = 2\<rparr>] = Inl TypeError \<and>
   snd (snd (chunkLoop ''Hello world'' []
     (initCursor \<lparr>word = ''xyz'', wstart = 0, wend = 1\<rparr>)
     [\<lparr>word = ''xyz'', wstart = 0, wend = 1\<rparr>,
      \<lparr>word = ''Hello'', wstart = 1, wend = 15 / 10\<rparr>,
      \<lparr>word = ''world'', wstart = 15 / 10, wend = 2\<rparr>]))
   = [\<lparr>word = ''xyz'', wstart = 0, wend = 1\<rparr>,
      \<lparr>word = ''Hello'', wstart = 1, wend = 15 / 10\<rparr>,
      \<lparr>word = ''world'', wstart = 15 / 10, wend = 2\<rparr>] \<and>
   chunkText ''Hello world''
     [\<lparr>word = ''xyz'', wstart = 0, wend = 1\<rparr>,
      \<lparr>word = ''Hello'', wstart = 1, wend = 15 / 10\<rparr>,
      \<lparr>word = ''world'', wstart = 15 / 10, wend = 2\<rparr>] = Inl TypeError"
  by code_simp

text \<open>
  C7. The claim is that the texts of the chunks, put together, give the narration back
  when the texts of the words put together are the narration. In the first run below
  they are, every word is consumed and chunked without an exception, and the middle
  word is in no chunk. The second and the third word each open a new span; the branch
  that opens a span leaves \<open>chunkEndIndex\<close> at the start of its word, so the span of
  the second word is cut as the empty slice from 20 to 20. The second run has the same
  words without their leading spaces and loses the same word.
\<close>

theorem chunkText_drops_word:
  "concat (map word [\<lparr>word = ''internationalization'', wstart = 0, wend = 1\<rparr>,
      \<lparr>word = '' telecommunications'', wstart = 1, wend = 2\<rparr>,
      \<lparr>word = '' misunderstandings'', wstart = 2, wend = 3\<rparr>])
     = ''internationalization telecommunications misunderstandings'' \<and>
   chunkText ''internationalization telecommunications misunderstandings''
     [\<lparr>word = ''internationalization'', wstart = 0, wend = 1\<rparr>,
      \<lparr>word = '' telecommunications'', wstart = 1, wend = 2\<rparr>,
      \<lparr>word = '' misunderstandings'', wstart = 2, wend = 3\<rparr>]
   = Inr \<lparr>chunks = [\<lparr>ctext = ''internationalization'', cstart = 0, cend = 1\<rparr>,
                     \<lparr>ctext = [], cstart = 1, cend = 2\<rparr>,
                     \<lparr>ctext = '' misunderstandings'', cstart = 2, cend = 3\<rparr>],
          remainingWords = []\<rparr> \<and>
   chunkText ''internationalization telecommunications misunderstandings''
     [\<lparr>word = ''internationalization'', wstart = 0, wend = 1\<rparr>,
      \<lparr>word = ''telecommunications'', wstart = 1, wend = 2\<rparr>,
      \<lparr>word = ''misunderstandings'', wstart = 2, wend = 3\<rparr>]
   = Inr \<lparr>chunks = [\<lparr>ctext = ''internationalization'', cstart = 0, cend = 1\<rparr>,
                     \<lparr>ctext = [], cstart = 1, cend = 2\<rparr>,
                     \<lparr>ctext = ''misunderstandings'', cstart = 2, cend = 3\<rparr>],
          remainingWords = []\<rparr> \<and>
   filter (\<lambda>c. \<not> isSpace c)
     (concat (map ctext [\<lparr>ctext = ''internationalization'', cstart = 0, cend = 1\<rparr>,
                         \<lparr>ctext = [], cstart = 1, cend = 2\<rparr>,
                         \<lparr>ctext = '' misunderstandings'', cstart = 2, cend = 3\<rparr>]))
     = ''internationalizationmisunderstandings''"
  by code_simp

text \<open>
  C8. The claim is that two words with the same text are never bound to the same
  occurrence. In the sentence below \<open>that\<close> occurs at 27 and at 32. The first
  \<open>that\<close> opens a new span, which leaves the cursor at 27, the start of the match, and
  the second \<open>that\<close> is found at 27 again; the occurrence at 32 is bound to no word.
\<close>

theorem bindings_repeated_word:
  "bindings ''We all know in our hearts, that that is true''
     (initCursor \<lparr>word = ''We'', wstart = 0, wend = 2 / 10\<rparr>)
     [\<lparr>word = ''We'', wstart = 0, wend = 2 / 10\<rparr>,
      \<lparr>word = ''all'', wstart = 2 / 10, wend = 5 / 10\<rparr>,
      \<lparr>word = ''know'', wstart = 5 / 10, wend = 8 / 10\<rparr>,
      \<lparr>word = ''in'', wstart = 8 / 10, wend = 1\<rparr>,
      \<lparr>word = ''our'', wstart = 1, wend = 12 / 10\<rparr>,
      \<lparr>word = ''hearts'', wstart = 12 / 10, wend = 17 / 10\<rparr>,
      \<lparr>word = ''that'', wstart = 18 / 10, wend = 2\<rparr>,
      \<lparr>word = ''that'', wstart = 2, wend = 22 / 10\<rparr>,
      \<lparr>word = ''is'', wstart = 22 / 10, wend = 24 / 10\<rparr>,
      \<lparr>word = ''true'', wstart = 24 / 10, wend = 28 / 10\<rparr>]
   = [0, 3, 7, 12, 15, 19, 27, 27, 37, 40] \<and>
   indexOf ''We all know in our hearts, that that is true'' ''that'' 28 = Some 32"
  by code_simp

text \<open>
  C9. For the narration \<open>Hello world. Goodbye now.\<close> and the four words Hello (0 to
  0.4), world (0.4 to 0.9), Goodbye (1.0 to 1.6) and now (1.6 to 1.9), \<open>chunkText\<close>
  returns exactly two chunks: \<open>Hello world\<close> from 0 to 0.9 and \<open>Goodbye now\<close> from
  1.0 to 1.9.
\<close>

theorem chunkText_hello_goodbye:
  "chunkText ''Hello world. Goodbye now.''
     [\<lparr>word = ''Hello'', wstart = 0, wend = 4 / 10\<rparr>,
      \<lparr>word = ''world'', wstart = 4 / 10, wend = 9 / 10\<rparr>,
      \<lparr>word = ''Goodbye'', wstart = 1, wend = 16 / 10\<rparr>,
      \<lparr>word = ''now'', wstart = 16 / 10, wend = 19 / 10\<rparr>]
   = Inr \<lparr>chunks = [\<lparr>ctext = ''Hello world'', cstart = 0, cend = 9 / 10\<rparr>,
                     \<lparr>ctext = ''Goodbye now'', cstart = 1, cend = 19 / 10\<rparr>],
          remainingWords = []\<rparr>"
  by code_simp

text \<open>
  C10. When the loop has pushed at least one chunk and the final span lasts less than
  half a second, \<open>chunkSentence\<close> returns the pushed chunks with one change: the text of
  the last one has a space and the rest of the sentence appended. Its start and end and
  all chunks before it are as the loop left them.
\<close>

theorem merge_changes_text_only:
  assumes "chunkLoop sentence [] (initCursor w0) (w0 # ws) = (cs, cur, rest)"
    and "chunkEndTime cur - chunkStartTime cur < 1 / 2"
    and "cs \<noteq> []"
  shows "chunkSentence sentence (w0 # ws) =
     Inr \<lparr>chunks = butlast cs @ [(last cs)\<lparr>ctext := ctext (last cs) @ '' ''
                        @ sliceFrom sentence (chunkStartIndex cur)\<rparr>],
          remainingWords = rest\<rparr> \<and>
     cstart ((last cs)\<lparr>ctext := ctext (last cs) @ '' ''
                        @ sliceFrom sentence (chunkStartIndex cur)\<rparr>) = cstart (last cs) \<and>
     cend ((last cs)\<lparr>ctext := ctext (last cs) @ '' ''
                        @ sliceFrom sentence (chunkStartIndex cur)\<rparr>) = cend (last cs)"
  using assms by (simp add: chunkSentence_def finishChunks_def update_last nth_last)

theorem merge_changes_text_only_witness:
  "chunkSentence ''The quick brown fox jumps over dogs''
     [\<lparr>word = ''The'', wstart = 0, wend = 2 / 10\<rparr>,
      \<lparr>word = ''quick'', wstart = 2 / 10, wend = 6 / 10\<rparr>,
      \<lparr>word = ''brown'', wstart = 6 / 10, wend = 1\<rparr>,
      \<lparr>word = ''fox'', wstart = 1, wend = 13 / 10\<rparr>,
      \<lparr>word = ''jumps'', wstart = 13 / 10, wend = 17 / 10\<rparr>,
      \<lparr>word = ''over'', wstart = 17 / 10, wend = 2\<rparr>,
      \<lparr>word = ''dogs'', wstart = 2, wend = 23 / 10\<rparr>]
   = Inr \<lparr>chunks = [\<lparr>ctext = ''The quick brown fox jumps over dogs'', cstart = 0, cend = 2\<rparr>],
          remainingWords = []\<rparr> \<and>
   fst (chunkLoop ''The quick brown fox jumps over dogs'' []
          (initCursor \<lparr>word = ''The'', wstart = 0, wend = 2 / 10\<rparr>)
     [\<lparr>word = ''The'', wstart = 0, wend = 2 / 10\<rparr>,
      \<lparr>word = ''quick'', wstart = 2 / 10, wend = 6 / 10\<rparr>,
      \<lparr>word = ''brown'', wstart = 6 / 10, wend = 1\<rparr>,
      \<lparr>word = ''fox'', wstart = 1, wend = 13 / 10\<rparr>,
      \<lparr>word = ''jumps'', wstart = 13 / 10, wend = 17 / 10\<rparr>,
      \<lparr>word = ''over'', wstart = 17 / 10, wend = 2\<rparr>,
      \<lparr>word = ''dogs'', wstart = 2, wend = 23 / 10\<rparr>])
   = [\<lparr>ctext = ''The quick brown fox jumps over'', cstart = 0, cend = 2\<rparr>]"
proof -
  let ?s = "''The quick brown fox jumps over dogs''"
  let ?w0 = "\<lparr>word = ''The'', wstart = 0, wend = 2 / 10\<rparr>"
  let ?ws = "[\<lparr>word = ''quick'', wstart = 2 / 10, wend = 6 / 10\<rparr>,
      \<lparr>word = ''brown'', wstart = 6 / 10, wend = 1\<rparr>,
      \<lparr>word = ''fox'', wstart = 1, wend = 13 / 10\<rparr>,
      \<lparr>word = ''jumps'', wstart = 13 / 10, wend = 17 / 10\<rparr>,
      \<lparr>word = ''over'', wstart = 17 / 10, wend = 2\<rparr>,
      \<lparr>word = ''dogs'', wstart = 2, wend = 23 / 10\<rparr>]"
  let ?cs = "[\<lparr>ctext = ''The quick brown fox jumps over'', cstart = 0, cend = 2\<rparr>]"
  let ?cur = "\<lparr>chunkStartIndex = 31, chunkEndIndex = 31,
               chunkStartTime = 2, chunkEndTime = 23 / 10\<rparr>"
  have loop: "chunkLoop ?s [] (initCursor ?w0) (?w0 # ?ws) = (?cs, ?cur, [])"
    by code_simp
  have short: "chunkEndTime ?cur - chunkStartTime ?cur < 1 / 2"
    by simp
  have ne: "?cs \<noteq> []" by simp
  have rest: "sliceFrom ?s 31 = ''dogs''" by code_simp
  from merge_changes_text_only[OF loop short ne] loop rest show ?thesis
    by simp
qed

end
